theory Spec2Isabelle
  imports Complex_Main "HOL-Library.Sublist"
begin

section \<open>The breakpoint broadcaster of \<open>utils/media-query\<close>\<close>

text \<open>
  The module keeps a module-level array \<open>handlers\<close> of callbacks, four
  \<open>MediaQueryList\<close> objects built with \<open>window.matchMedia\<close> when a window exists, and one
  change listener per media query that runs every callback when the query starts to match.
  The hook \<open>useScreenSize\<close> keeps a React state cell that its callback refreshes.

  Callbacks are compared by reference (\<open>item !== handler\<close>): a handle is modelled by its
  identity, a natural number. Arrays are objects: \<open>push\<close> changes the array in place while
  \<open>filter\<close> builds a new array that is then assigned to the variable \<open>handlers\<close>, so the
  arrays live in a store and the variable holds an address.
\<close>

type_synonym handle = nat
type_synonym addr = nat

text \<open>What a dispatch does is observed as a trace of callback entries and exits.\<close>

datatype event = Call handle | Return handle

text \<open>
  The only listener the module ever attaches to a media query is the arrow function
  \<open>(e) => { if (e.matches) { handlers.forEach(handler => handler()) } }\<close>.
\<close>

datatype listener = NotifyHandlers

text \<open>
  A media query list: the width bounds of its query (in CSS pixels, a length that need not
  be integral) and the listeners added to it.
\<close>

record MediaQueryList =
  min_width :: "rat option"
  max_width :: "rat option"
  listeners :: "listener list"

text \<open>The object \<open>getScreenSize\<close> returns; \<open>None\<close> is JavaScript's \<open>undefined\<close>.\<close>

record ScreenSize =
  isXSmall :: "bool option"
  isSmall :: "bool option"
  isMedium :: "bool option"
  isLarge :: "bool option"

text \<open>
  The state: the environment's window (its viewport width, \<open>None\<close> when
  \<open>typeof window === 'undefined'\<close>), the array store with its next unused address, the
  module's variables, the React state cell of each hook instance (keyed by the identity of
  its \<open>onSizeChanged\<close> callback), and the trace.
\<close>

record state =
  window :: "rat option"
  heap :: "addr \<Rightarrow> handle list"
  brk :: addr
  handlers :: addr
  xSmallMedia :: "MediaQueryList option"
  smallMedia :: "MediaQueryList option"
  mediumMedia :: "MediaQueryList option"
  largeMedia :: "MediaQueryList option"
  screenSize :: "handle \<Rightarrow> ScreenSize option"
  trace :: "event list"

subsection \<open>Media queries\<close>

definition matchMedia :: "rat option \<Rightarrow> rat option \<Rightarrow> MediaQueryList" where
  "matchMedia lo hi = \<lparr>min_width = lo, max_width = hi, listeners = []\<rparr>"

definition addListener :: "listener \<Rightarrow> MediaQueryList \<Rightarrow> MediaQueryList" where
  "addListener l m = m\<lparr>listeners := listeners m @ [l]\<rparr>"

text \<open>
  \<open>MediaQueryList.matches\<close> is the host's, not the module's. The host compares the
  viewport width with a bound of the query up to the precision of its layout unit, one
  64th of a pixel in Chromium: \<open>min-width: lo\<close> holds from \<open>lo - 1/64\<close> on and
  \<open>max-width: hi\<close> holds up to \<open>hi + 1/64\<close>.
\<close>

definition precision :: rat where
  "precision = 1 / 64"

definition matches :: "MediaQueryList \<Rightarrow> rat \<Rightarrow> bool" where
  "matches m w =
     ((case min_width m of None \<Rightarrow> True | Some lo \<Rightarrow> lo - precision \<le> w) \<and>
      (case max_width m of None \<Rightarrow> True | Some hi \<Rightarrow> w \<le> hi + precision))"

subsection \<open>Module initialisation (lines 21 to 40)\<close>

definition empty_module :: "rat option \<Rightarrow> state" where
  "empty_module win =
     \<lparr>window = win, heap = (\<lambda>_. []), brk = 1, handlers = 0,
      xSmallMedia = None, smallMedia = None, mediumMedia = None, largeMedia = None,
      screenSize = (\<lambda>_. None), trace = []\<rparr>"

definition module_init :: "rat option \<Rightarrow> state" where
  "module_init win =
     (case win of
        None \<Rightarrow> empty_module win
      | Some _ \<Rightarrow>
          (empty_module win)
            \<lparr>xSmallMedia := Some (addListener NotifyHandlers (matchMedia None (Some 599.99))),
             smallMedia := Some (addListener NotifyHandlers (matchMedia (Some 600) (Some 959.99))),
             mediumMedia := Some (addListener NotifyHandlers (matchMedia (Some 960) (Some 1279.99))),
             largeMedia := Some (addListener NotifyHandlers (matchMedia (Some 1280) None))\<rparr>)"

subsection \<open>The registry: \<open>subscribe\<close> and \<open>unsubscribe\<close>\<close>

definition registry :: "state \<Rightarrow> handle list" where
  "registry st = heap st (handlers st)"

text \<open>\<open>handlers.push(handler)\<close>: the array the variable points to grows in place.\<close>

definition subscribe :: "handle \<Rightarrow> state \<Rightarrow> state" where
  "subscribe handler st =
     st\<lparr>heap := (heap st)(handlers st := heap st (handlers st) @ [handler])\<rparr>"

text \<open>
  \<open>handlers = handlers.filter(item => item !== handler)\<close>: a new array is allocated and
  the variable is pointed at it; the old array is left as it was.
\<close>

definition unsubscribe :: "handle \<Rightarrow> state \<Rightarrow> state" where
  "unsubscribe handler st =
     st\<lparr>heap := (heap st)(brk st := filter (\<lambda>item. item \<noteq> handler) (heap st (handlers st))),
        handlers := brk st,
        brk := Suc (brk st)\<rparr>"

subsection \<open>\<open>getScreenSize\<close>\<close>

text \<open>
  \<open>media?.matches\<close>: \<open>undefined\<close> when the variable was never assigned, else the query
  evaluated against the current viewport width.
\<close>

definition opt_matches :: "state \<Rightarrow> MediaQueryList option \<Rightarrow> bool option" where
  "opt_matches st media =
     (case media of
        None \<Rightarrow> None
      | Some m \<Rightarrow> (case window st of None \<Rightarrow> None | Some w \<Rightarrow> Some (matches m w)))"

definition getScreenSize :: "state \<Rightarrow> ScreenSize" where
  "getScreenSize st =
     \<lparr>isXSmall = opt_matches st (xSmallMedia st),
      isSmall = opt_matches st (smallMedia st),
      isMedium = opt_matches st (mediumMedia st),
      isLarge = opt_matches st (largeMedia st)\<rparr>"

definition flags_true :: "ScreenSize \<Rightarrow> nat" where
  "flags_true s = length (filter (\<lambda>f. f = Some True) [isXSmall s, isSmall s, isMedium s, isLarge s])"

subsection \<open>Callbacks and the dispatch\<close>

text \<open>
  A callback is opaque code. What it can do to this module is a sequence of calls of
  \<open>subscribe\<close>, \<open>unsubscribe\<close> and of a hook's \<open>setScreenSize(getScreenSize())\<close>; which
  sequence may depend on the state it is called in. Callbacks are taken to return
  normally.
\<close>

datatype action = Subscribe handle | Unsubscribe handle | SetScreenSize handle

type_synonym behaviour = "handle \<Rightarrow> state \<Rightarrow> action list"

fun perform :: "action \<Rightarrow> state \<Rightarrow> state" where
  "perform (Subscribe h) st = subscribe h st"
| "perform (Unsubscribe h) st = unsubscribe h st"
| "perform (SetScreenSize c) st = st\<lparr>screenSize := (screenSize st)(c := Some (getScreenSize st))\<rparr>"

definition call :: "behaviour \<Rightarrow> handle \<Rightarrow> state \<Rightarrow> state" where
  "call beh h st =
     (let st1 = st\<lparr>trace := trace st @ [Call h]\<rparr>;
          st2 = fold perform (beh h st) st1
      in st2\<lparr>trace := trace st2 @ [Return h]\<rparr>)"

text \<open>
  \<open>Array.prototype.forEach\<close> on the array at address \<open>a\<close>: the length is read once,
  before the first call; index \<open>k\<close> is visited when it is (still) present, with the value
  found there at that moment.
\<close>

function forEach_from :: "behaviour \<Rightarrow> addr \<Rightarrow> nat \<Rightarrow> nat \<Rightarrow> state \<Rightarrow> state" where
  "forEach_from beh a k len st =
     (if k < len
      then forEach_from beh a (Suc k) len
             (if k < length (heap st a) then call beh (heap st a ! k) st else st)
      else st)"
  by pat_completeness auto
termination
  by (relation "measure (\<lambda>(beh, a, k, len, st). len - k)") auto

declare forEach_from.simps [simp del]

definition forEach :: "behaviour \<Rightarrow> addr \<Rightarrow> state \<Rightarrow> state" where
  "forEach beh a st = forEach_from beh a 0 (length (heap st a)) st"

text \<open>The listener body, with \<open>e.matches\<close> as its argument.\<close>

fun run_listener :: "behaviour \<Rightarrow> listener \<Rightarrow> bool \<Rightarrow> state \<Rightarrow> state" where
  "run_listener beh NotifyHandlers e_matches st =
     (if e_matches then forEach beh (handlers st) st else st)"

text \<open>The host delivers a change event to a media query list: every listener runs.\<close>

definition fire_change :: "behaviour \<Rightarrow> MediaQueryList \<Rightarrow> bool \<Rightarrow> state \<Rightarrow> state" where
  "fire_change beh m e_matches st = fold (\<lambda>l. run_listener beh l e_matches) (listeners m) st"

text \<open>
  The host resizes the viewport: each media query list, in creation order, whose match
  state differs between the old and the new width receives a change event carrying the
  new match state. Without a window there is no viewport to resize.
\<close>

definition report_change :: "behaviour \<Rightarrow> rat \<Rightarrow> rat \<Rightarrow> MediaQueryList option \<Rightarrow> state \<Rightarrow> state" where
  "report_change beh w w' media st =
     (case media of
        None \<Rightarrow> st
      | Some m \<Rightarrow> if matches m w \<noteq> matches m w' then fire_change beh m (matches m w') st else st)"

definition resize :: "behaviour \<Rightarrow> rat \<Rightarrow> state \<Rightarrow> state" where
  "resize beh w' st =
     (case window st of
        None \<Rightarrow> st
      | Some w \<Rightarrow>
          fold (report_change beh w w')
            [xSmallMedia st, smallMedia st, mediumMedia st, largeMedia st]
            (st\<lparr>window := Some w'\<rparr>))"

subsection \<open>The hook \<open>useScreenSize\<close>\<close>

text \<open>
  The callback \<open>onSizeChanged\<close> of the hook instance \<open>c\<close>; the first render with its
  effect (\<open>useState(getScreenSize())\<close>, then \<open>subscribe(onSizeChanged)\<close>); the effect's
  cleanup; and the value the hook returns. React's \<open>setScreenSize\<close> is taken to store
  the value so that the next read of the hook returns it; \<open>useCallback\<close> with no
  dependencies gives the instance one callback identity for its whole life.
\<close>

definition onSizeChanged :: "handle \<Rightarrow> action list" where
  "onSizeChanged c = [SetScreenSize c]"

definition useScreenSize_mount :: "handle \<Rightarrow> state \<Rightarrow> state" where
  "useScreenSize_mount c st =
     subscribe c (st\<lparr>screenSize := (screenSize st)(c := Some (getScreenSize st))\<rparr>)"

definition useScreenSize_unmount :: "handle \<Rightarrow> state \<Rightarrow> state" where
  "useScreenSize_unmount c st = unsubscribe c st"

definition useScreenSize :: "handle \<Rightarrow> state \<Rightarrow> ScreenSize option" where
  "useScreenSize c st = screenSize st c"

subsection \<open>Runs of the system\<close>

datatype step = Mount handle | Unmount handle | DoSubscribe handle | DoUnsubscribe handle | Resize rat

fun do_step :: "behaviour \<Rightarrow> step \<Rightarrow> state \<Rightarrow> state" where
  "do_step beh (Mount c) st = useScreenSize_mount c st"
| "do_step beh (Unmount c) st = useScreenSize_unmount c st"
| "do_step beh (DoSubscribe h) st = subscribe h st"
| "do_step beh (DoUnsubscribe h) st = unsubscribe h st"
| "do_step beh (Resize w) st = resize beh w st"

definition run :: "behaviour \<Rightarrow> step list \<Rightarrow> state \<Rightarrow> state" where
  "run beh steps st = fold (do_step beh) steps st"

text \<open>The array the variable \<open>handlers\<close> points to is an allocated one.\<close>

definition heap_ok :: "state \<Rightarrow> bool" where
  "heap_ok st = (handlers st < brk st)"

definition calls :: "handle list \<Rightarrow> event list" where
  "calls hs = concat (map (\<lambda>h. [Call h, Return h]) hs)"

text \<open>
  The queries and the window are those of a module loaded where a window exists.
\<close>

definition installed :: "state \<Rightarrow> bool" where
  "installed st =
     (heap_ok st \<and> window st \<noteq> None \<and>
      xSmallMedia st = xSmallMedia (module_init (Some 0)) \<and>
      smallMedia st = smallMedia (module_init (Some 0)) \<and>
      mediumMedia st = mediumMedia (module_init (Some 0)) \<and>
      largeMedia st = largeMedia (module_init (Some 0)))"

text \<open>
  What one callback may change: arrays that exist only grow at their end, new arrays get
  new addresses, and the window and the media queries stay as they are.
\<close>

definition grows :: "state \<Rightarrow> state \<Rightarrow> bool" where
  "grows st st' =
     (brk st \<le> brk st' \<and> (\<forall>a. a < brk st \<longrightarrow> prefix (heap st a) (heap st' a)) \<and>
      window st' = window st \<and> xSmallMedia st' = xSmallMedia st \<and>
      smallMedia st' = smallMedia st \<and> mediumMedia st' = mediumMedia st \<and>
      largeMedia st' = largeMedia st)"

text \<open>The events that \<open>st'\<close> added to the trace of \<open>st\<close>, and how often \<open>h\<close> was entered.\<close>

definition new_events :: "state \<Rightarrow> state \<Rightarrow> event list" where
  "new_events st st' = drop (length (trace st)) (trace st')"

definition invocations :: "handle \<Rightarrow> event list \<Rightarrow> nat" where
  "invocations h evs = count_list evs (Call h)"

text \<open>The media queries whose match state differs between two widths, and those that start to match.\<close>

definition media_of :: "state \<Rightarrow> MediaQueryList list" where
  "media_of st = List.map_filter (\<lambda>m. m) [xSmallMedia st, smallMedia st, mediumMedia st, largeMedia st]"

definition changed_queries :: "state \<Rightarrow> rat \<Rightarrow> rat \<Rightarrow> MediaQueryList list" where
  "changed_queries st w w' = filter (\<lambda>m. matches m w \<noteq> matches m w') (media_of st)"

definition entered_queries :: "state \<Rightarrow> rat \<Rightarrow> rat \<Rightarrow> MediaQueryList list" where
  "entered_queries st w w' = filter (\<lambda>m. \<not> matches m w \<and> matches m w') (media_of st)"

text \<open>The hook instance \<open>c\<close> shows the current classification.\<close>

definition fresh :: "handle \<Rightarrow> state \<Rightarrow> bool" where
  "fresh c st = (screenSize st c = Some (getScreenSize st))"

definition subscribes :: "action \<Rightarrow> bool" where
  "subscribes a = (case a of Subscribe _ \<Rightarrow> True | _ \<Rightarrow> False)"

text \<open>A module loaded without a window that has not invoked anything.\<close>

definition inert :: "state \<Rightarrow> bool" where
  "inert st =
     (window st = None \<and> xSmallMedia st = None \<and> smallMedia st = None \<and>
      mediumMedia st = None \<and> largeMedia st = None \<and> trace st = [])"

section \<open>Registry laws\<close>

lemma registry_subscribe: "registry (subscribe h st) = registry st @ [h]"
  by (simp add: registry_def subscribe_def)

lemma registry_unsubscribe: "registry (unsubscribe h st) = filter (\<lambda>item. item \<noteq> h) (registry st)"
  by (simp add: registry_def unsubscribe_def)

lemma registry_init: "registry (module_init win) = []"
  by (simp add: registry_def module_init_def empty_module_def split: option.splits)

lemma window_init: "window (module_init win) = win"
  by (simp add: module_init_def empty_module_def split: option.splits)

lemma media_init:
  "xSmallMedia (module_init (Some w0)) =
     Some \<lparr>min_width = None, max_width = Some 599.99, listeners = [NotifyHandlers]\<rparr>"
  "smallMedia (module_init (Some w0)) =
     Some \<lparr>min_width = Some 600, max_width = Some 959.99, listeners = [NotifyHandlers]\<rparr>"
  "mediumMedia (module_init (Some w0)) =
     Some \<lparr>min_width = Some 960, max_width = Some 1279.99, listeners = [NotifyHandlers]\<rparr>"
  "largeMedia (module_init (Some w0)) =
     Some \<lparr>min_width = Some 1280, max_width = None, listeners = [NotifyHandlers]\<rparr>"
  by (simp_all add: module_init_def empty_module_def addListener_def matchMedia_def)

lemma installed_init: "installed (module_init (Some w))"
  by (simp add: installed_def heap_ok_def media_init) (simp add: module_init_def empty_module_def)

section \<open>Classification of the viewport width\<close>

lemma getScreenSize_installed:
  "installed st \<Longrightarrow> window st = Some w \<Longrightarrow>
   getScreenSize st =
     \<lparr>isXSmall = Some (w \<le> 599.99 + precision),
      isSmall = Some (600 - precision \<le> w \<and> w \<le> 959.99 + precision),
      isMedium = Some (960 - precision \<le> w \<and> w \<le> 1279.99 + precision),
      isLarge = Some (1280 - precision \<le> w)\<rparr>"
  by (simp add: installed_def getScreenSize_def opt_matches_def media_init matches_def)

section \<open>What a callback and a dispatch may change\<close>

lemma grows_refl: "grows st st"
  by (simp add: grows_def)

lemma grows_trans: "grows s1 s2 \<Longrightarrow> grows s2 s3 \<Longrightarrow> grows s1 s3"
  unfolding grows_def by (auto intro: prefix_order.trans)

lemma grows_perform: "grows st (perform a st)"
  by (cases a) (auto simp: grows_def subscribe_def unsubscribe_def)

lemma heap_ok_perform: "heap_ok st \<Longrightarrow> heap_ok (perform a st)"
  by (cases a) (auto simp: heap_ok_def subscribe_def unsubscribe_def)

lemma trace_perform: "trace (perform a st) = trace st"
  by (cases a) (auto simp: subscribe_def unsubscribe_def)

lemma grows_fold_perform: "grows st (fold perform as st)"
proof (induction as arbitrary: st)
  case Nil show ?case by (simp add: grows_refl)
next
  case (Cons a as)
  have "grows st (perform a st)" by (rule grows_perform)
  moreover have "grows (perform a st) (fold perform as (perform a st))" by (rule Cons.IH)
  ultimately show ?case by (auto intro: grows_trans)
qed

lemma heap_ok_fold_perform: "heap_ok st \<Longrightarrow> heap_ok (fold perform as st)"
  by (induction as arbitrary: st) (auto simp: heap_ok_perform)

lemma trace_fold_perform: "trace (fold perform as st) = trace st"
  by (induction as arbitrary: st) (auto simp: trace_perform)

lemma grows_trace_update: "grows st (st\<lparr>trace := t\<rparr>)"
  by (simp add: grows_def)

lemma grows_call: "grows st (call beh h st)"
proof -
  let ?s1 = "st\<lparr>trace := trace st @ [Call h]\<rparr>"
  let ?s2 = "fold perform (beh h st) ?s1"
  have "grows st ?s1" by (rule grows_trace_update)
  moreover have "grows ?s1 ?s2" by (rule grows_fold_perform)
  moreover have "grows ?s2 (?s2\<lparr>trace := trace ?s2 @ [Return h]\<rparr>)" by (rule grows_trace_update)
  ultimately show ?thesis unfolding call_def Let_def by (blast intro: grows_trans)
qed

lemma heap_ok_call: "heap_ok st \<Longrightarrow> heap_ok (call beh h st)"
proof -
  assume ok: "heap_ok st"
  let ?s1 = "st\<lparr>trace := trace st @ [Call h]\<rparr>"
  have "heap_ok ?s1" using ok by (simp add: heap_ok_def)
  then have "heap_ok (fold perform (beh h st) ?s1)" by (rule heap_ok_fold_perform)
  then show ?thesis by (simp add: call_def Let_def heap_ok_def)
qed

lemma trace_call: "trace (call beh h st) = trace st @ [Call h, Return h]"
  by (simp add: call_def Let_def trace_fold_perform)

lemma grows_fold_call: "grows st (fold (call beh) hs st)"
proof (induction hs arbitrary: st)
  case Nil show ?case by (simp add: grows_refl)
next
  case (Cons h hs)
  have "grows st (call beh h st)" by (rule grows_call)
  moreover have "grows (call beh h st) (fold (call beh) hs (call beh h st))" by (rule Cons.IH)
  ultimately show ?case by (auto intro: grows_trans)
qed

lemma heap_ok_fold_call: "heap_ok st \<Longrightarrow> heap_ok (fold (call beh) hs st)"
  by (induction hs arbitrary: st) (auto simp: heap_ok_call)

lemma trace_fold_call: "trace (fold (call beh) hs st) = trace st @ calls hs"
  by (induction hs arbitrary: st) (auto simp: trace_call calls_def)

lemma forEach_from_fold:
  "a < brk st \<Longrightarrow> len \<le> length (heap st a) \<Longrightarrow>
   forEach_from beh a k len st = fold (call beh) (take (len - k) (drop k (heap st a))) st"
proof (induction beh a k len st rule: forEach_from.induct)
  case (1 beh a k len st)
  show ?case
  proof (cases "k < len")
    case False
    then show ?thesis by (simp add: forEach_from.simps [of beh a k len st])
  next
    case True
    let ?h = "heap st a ! k"
    let ?s1 = "call beh ?h st"
    from True "1.prems" have klen: "k < length (heap st a)" by simp
    have g: "grows st ?s1" by (rule grows_call)
    from g "1.prems"(1) have p: "prefix (heap st a) (heap ?s1 a)" and b: "a < brk ?s1"
      by (auto simp: grows_def)
    from p obtain zs where hs: "heap ?s1 a = heap st a @ zs" by (auto simp: prefix_def)
    from "1.prems"(2) hs have len1: "len \<le> length (heap ?s1 a)" by simp
    have same: "take (len - Suc k) (drop (Suc k) (heap ?s1 a)) = take (len - Suc k) (drop (Suc k) (heap st a))"
      using "1.prems"(2) hs by simp
    have step: "forEach_from beh a k len st = forEach_from beh a (Suc k) len ?s1"
      using True klen by (simp add: forEach_from.simps [of beh a k len st])
    have "forEach_from beh a (Suc k) len ?s1 = fold (call beh) (take (len - Suc k) (drop (Suc k) (heap ?s1 a))) ?s1"
      using "1.IH" [OF True] b len1 klen by simp
    also have "\<dots> = fold (call beh) (take (len - Suc k) (drop (Suc k) (heap st a))) ?s1"
      by (simp only: same)
    also have "\<dots> = fold (call beh) (?h # take (len - Suc k) (drop (Suc k) (heap st a))) st"
      by simp
    also have "?h # take (len - Suc k) (drop (Suc k) (heap st a)) = take (len - k) (drop k (heap st a))"
      using True klen by (metis Cons_nth_drop_Suc Suc_diff_Suc take_Suc_Cons)
    finally show ?thesis using step by simp
  qed
qed

lemma forEach_fold: "heap_ok st \<Longrightarrow> forEach beh (handlers st) st = fold (call beh) (registry st) st"
  by (simp add: forEach_def heap_ok_def registry_def forEach_from_fold)

lemma getScreenSize_grows: "grows st st' \<Longrightarrow> getScreenSize st' = getScreenSize st"
  by (simp add: grows_def getScreenSize_def opt_matches_def cong: option.case_cong)

section \<open>A module loaded without a window\<close>

lemma inert_init: "inert (module_init None)"
  by (simp add: inert_def module_init_def empty_module_def)

lemma inert_step: "inert st \<Longrightarrow> inert (do_step beh s st)"
  by (cases s) (auto simp: inert_def useScreenSize_mount_def useScreenSize_unmount_def
      subscribe_def unsubscribe_def resize_def)

lemma inert_run: "inert st \<Longrightarrow> inert (run beh steps st)"
  unfolding run_def by (induction steps arbitrary: st) (auto simp: inert_step)

lemma inert_getScreenSize:
  "inert st \<Longrightarrow>
   getScreenSize st = \<lparr>isXSmall = None, isSmall = None, isMedium = None, isLarge = None\<rparr>"
  by (simp add: inert_def getScreenSize_def opt_matches_def)

section \<open>Resizing the viewport\<close>

lemma media_of_installed:
  "installed st \<Longrightarrow> media_of st =
     [\<lparr>min_width = None, max_width = Some 599.99, listeners = [NotifyHandlers]\<rparr>,
      \<lparr>min_width = Some 600, max_width = Some 959.99, listeners = [NotifyHandlers]\<rparr>,
      \<lparr>min_width = Some 960, max_width = Some 1279.99, listeners = [NotifyHandlers]\<rparr>,
      \<lparr>min_width = Some 1280, max_width = None, listeners = [NotifyHandlers]\<rparr>]"
  by (simp add: installed_def media_of_def media_init)

lemma fire_change_single:
  "listeners m = [NotifyHandlers] \<Longrightarrow>
   fire_change beh m b st = (if b then forEach beh (handlers st) st else st)"
  by (simp add: fire_change_def)

lemma report_change_single:
  "listeners m = [NotifyHandlers] \<Longrightarrow>
   report_change beh w w' (Some m) st =
     (if \<not> matches m w \<and> matches m w' then forEach beh (handlers st) st else st)"
  by (auto simp: report_change_def fire_change_single)

lemma listeners_installed: "installed st \<Longrightarrow> m \<in> set (media_of st) \<Longrightarrow> listeners m = [NotifyHandlers]"
  by (auto simp: media_of_installed)

text \<open>
  A resize runs the listener once for each query that starts to match, in creation order.
\<close>

lemma fold_report_change:
  "\<forall>m\<in>set ms. listeners m = [NotifyHandlers] \<Longrightarrow>
   fold (report_change beh w w') (map Some ms) st =
     (run_listener beh NotifyHandlers True ^^ length (filter (\<lambda>m. \<not> matches m w \<and> matches m w') ms)) st"
proof (induction ms arbitrary: st)
  case Nil
  then show ?case by simp
next
  case (Cons m ms)
  then have l: "listeners m = [NotifyHandlers]" and rest: "\<forall>m\<in>set ms. listeners m = [NotifyHandlers]"
    by simp_all
  show ?case
    by (simp add: report_change_single [OF l] Cons.IH [OF rest] funpow_swap1 del: run_listener.simps)
       (simp)
qed

lemma resize_installed:
  assumes "installed st" and "window st = Some w"
  shows "resize beh w' st =
     (run_listener beh NotifyHandlers True ^^ length (entered_queries st w w')) (st\<lparr>window := Some w'\<rparr>)"
proof -
  have m: "[xSmallMedia st, smallMedia st, mediumMedia st, largeMedia st] = map Some (media_of st)"
    using assms(1) by (simp add: media_of_installed) (simp add: installed_def media_init)
  have l: "\<forall>m\<in>set (media_of st). listeners m = [NotifyHandlers]"
    using listeners_installed [OF assms(1)] by blast
  show ?thesis
    using assms(2) by (simp only: resize_def m fold_report_change [OF l] entered_queries_def option.case)
qed

lemma heap_ok_window: "heap_ok (st\<lparr>window := x\<rparr>) = heap_ok st"
  by (simp add: heap_ok_def)

lemma registry_window: "registry (st\<lparr>window := x\<rparr>) = registry st"
  by (simp add: registry_def)

lemma forEach_window:
  "heap_ok st \<Longrightarrow> forEach beh (handlers st) (st\<lparr>window := x\<rparr>) = fold (call beh) (registry st) (st\<lparr>window := x\<rparr>)"
  using forEach_fold [of "st\<lparr>window := x\<rparr>" beh] by (simp add: heap_ok_window registry_window)

section \<open>Properties kept across callbacks\<close>

lemma count_calls: "count_list (calls hs) (Call h) = count_list hs h"
  by (induction hs) (auto simp: calls_def)

lemma Call_in_calls: "(Call h \<in> set (calls hs)) = (h \<in> set hs)"
  by (induction hs) (auto simp: calls_def)

lemma new_events_append: "trace st' = trace st @ evs \<Longrightarrow> new_events st st' = evs"
  by (simp add: new_events_def)

subsection \<open>The state cell of a hook instance\<close>

lemma getScreenSize_trace: "getScreenSize (st\<lparr>trace := t\<rparr>) = getScreenSize st"
  by (simp add: getScreenSize_def opt_matches_def cong: option.case_cong)

lemma getScreenSize_screenSize: "getScreenSize (st\<lparr>screenSize := x\<rparr>) = getScreenSize st"
  by (simp add: getScreenSize_def opt_matches_def cong: option.case_cong)

lemma fresh_perform: "fresh c st \<Longrightarrow> fresh c (perform a st)"
proof -
  assume f: "fresh c st"
  have g: "getScreenSize (perform a st) = getScreenSize st"
    by (rule getScreenSize_grows [OF grows_perform])
  have "screenSize (perform a st) c = Some (getScreenSize st)"
    using f by (cases a) (auto simp: fresh_def subscribe_def unsubscribe_def)
  then show ?thesis by (simp add: fresh_def g)
qed

lemma fresh_fold_perform: "fresh c st \<Longrightarrow> fresh c (fold perform as st)"
  by (induction as arbitrary: st) (auto simp: fresh_perform)

lemma fresh_trace: "fresh c (st\<lparr>trace := t\<rparr>) = fresh c st"
  by (simp add: fresh_def getScreenSize_trace)

lemma fresh_call: "fresh c st \<Longrightarrow> fresh c (call beh h st)"
  by (simp add: call_def Let_def fresh_trace fresh_fold_perform)

lemma fresh_call_own: "beh c st = onSizeChanged c \<Longrightarrow> fresh c (call beh c st)"
  by (simp add: call_def Let_def fresh_trace onSizeChanged_def)
     (simp add: fresh_def getScreenSize_screenSize getScreenSize_trace)

lemma fresh_fold_call:
  "(\<And>s. beh c s = onSizeChanged c) \<Longrightarrow> fresh c st \<or> c \<in> set hs \<Longrightarrow> fresh c (fold (call beh) hs st)"
proof (induction hs arbitrary: st)
  case Nil
  then show ?case by simp
next
  case (Cons h hs)
  show ?case
  proof (cases "fresh c st \<or> h = c")
    case True
    then have "fresh c (call beh h st)"
      using Cons.prems(1) by (auto simp: fresh_call fresh_call_own)
    then show ?thesis using Cons.IH [OF Cons.prems(1)] by simp
  next
    case False
    then have "c \<in> set hs" using Cons.prems(2) by auto
    then show ?thesis using Cons.IH [OF Cons.prems(1)] by simp
  qed
qed

subsection \<open>Membership in the registry across callbacks\<close>

lemma registry_screenSize: "registry (st\<lparr>screenSize := x\<rparr>) = registry st"
  by (simp add: registry_def)




lemma registry_trace: "registry (st\<lparr>trace := t\<rparr>) = registry st"
  by (simp add: registry_def)




subsection \<open>Callbacks that do not subscribe keep the registry free of duplicates\<close>

lemma distinct_perform:
  "distinct (registry st) \<Longrightarrow> \<not> subscribes a \<Longrightarrow> distinct (registry (perform a st))"
  by (cases a) (auto simp: registry_unsubscribe subscribes_def registry_screenSize)

lemma distinct_fold_perform:
  "distinct (registry st) \<Longrightarrow> \<forall>a\<in>set as. \<not> subscribes a \<Longrightarrow> distinct (registry (fold perform as st))"
  by (induction as arbitrary: st) (auto simp: distinct_perform)

lemma distinct_call:
  "distinct (registry st) \<Longrightarrow> \<forall>a\<in>set (beh k st). \<not> subscribes a \<Longrightarrow> distinct (registry (call beh k st))"
  by (simp add: call_def Let_def registry_trace distinct_fold_perform)

lemma distinct_fold_call:
  "(\<And>k s. \<forall>a\<in>set (beh k s). \<not> subscribes a) \<Longrightarrow> distinct (registry st) \<Longrightarrow>
   distinct (registry (fold (call beh) hs st))"
  by (induction hs arbitrary: st) (auto simp: distinct_call)

lemma absent_perform:
  "u \<notin> set (registry st) \<Longrightarrow> a \<noteq> Subscribe u \<Longrightarrow> u \<notin> set (registry (perform a st))"
  by (cases a) (auto simp: registry_subscribe registry_unsubscribe registry_screenSize)

lemma absent_fold_perform:
  "u \<notin> set (registry st) \<Longrightarrow> Subscribe u \<notin> set as \<Longrightarrow> u \<notin> set (registry (fold perform as st))"
proof (induction as arbitrary: st)
  case Nil
  then show ?case by simp
next
  case (Cons a as)
  from Cons.prems have "a \<noteq> Subscribe u" and rest: "Subscribe u \<notin> set as" by auto
  with Cons.prems(1) have "u \<notin> set (registry (perform a st))" by (simp add: absent_perform)
  from Cons.IH [OF this rest] show ?case by simp
qed

lemma absent_call:
  "u \<notin> set (registry st) \<Longrightarrow> Subscribe u \<notin> set (beh k st) \<Longrightarrow> u \<notin> set (registry (call beh k st))"
  by (simp add: call_def Let_def registry_trace absent_fold_perform)

lemma absent_call_unsub:
  "beh g st = [Unsubscribe u] \<Longrightarrow> u \<notin> set (registry (call beh g st))"
  by (simp add: call_def Let_def registry_trace registry_unsubscribe)

lemma absent_fold_call:
  assumes "\<And>k s. Subscribe u \<notin> set (beh k s)" and "\<And>s. beh g s = [Unsubscribe u]"
  shows "u \<notin> set (registry st) \<or> g \<in> set hs \<Longrightarrow> u \<notin> set (registry (fold (call beh) hs st))"
proof (induction hs arbitrary: st)
  case Nil
  then show ?case by simp
next
  case (Cons k hs)
  show ?case
  proof (cases "u \<notin> set (registry st) \<or> k = g")
    case True
    then have "u \<notin> set (registry (call beh k st))"
      using assms by (auto simp: absent_call absent_call_unsub)
    then show ?thesis using Cons.IH by simp
  next
    case False
    then have "g \<in> set hs" using Cons.prems by auto
    then show ?thesis using Cons.IH by simp
  qed
qed

section \<open>Reachable states and the trace of a dispatch\<close>

lemma trace_subscribe [simp]: "trace (subscribe h st) = trace st"
  by (simp add: subscribe_def)

lemma trace_unsubscribe [simp]: "trace (unsubscribe h st) = trace st"
  by (simp add: unsubscribe_def)

lemma trace_init [simp]: "trace (module_init win) = []"
  by (simp add: module_init_def empty_module_def split: option.splits)

lemma window_subscribe [simp]: "window (subscribe h st) = window st"
  by (simp add: subscribe_def)

lemma window_unsubscribe [simp]: "window (unsubscribe h st) = window st"
  by (simp add: unsubscribe_def)

lemma installed_grows: "installed st \<Longrightarrow> grows st st' \<Longrightarrow> heap_ok st' \<Longrightarrow> installed st'"
  by (simp add: installed_def grows_def)

lemma installed_perform: "installed st \<Longrightarrow> installed (perform a st)"
  using installed_grows [OF _ grows_perform heap_ok_perform] by (simp add: installed_def)

lemma installed_subscribe: "installed st \<Longrightarrow> installed (subscribe h st)"
  using installed_perform [of st "Subscribe h"] by simp

lemma installed_unsubscribe: "installed st \<Longrightarrow> installed (unsubscribe h st)"
  using installed_perform [of st "Unsubscribe h"] by simp

lemma installed_window: "installed st \<Longrightarrow> installed (st\<lparr>window := Some w\<rparr>)"
  by (simp add: installed_def heap_ok_def)

lemma installed_fold_call: "installed st \<Longrightarrow> installed (fold (call beh) hs st)"
  using installed_grows [OF _ grows_fold_call heap_ok_fold_call] by (simp add: installed_def)

lemma listener_fold:
  "heap_ok st \<Longrightarrow> run_listener beh NotifyHandlers True st = fold (call beh) (registry st) st"
  by (simp add: forEach_fold)

lemma window_fold_call: "window (fold (call beh) hs st) = window st"
  using grows_fold_call [of st beh hs] by (simp add: grows_def)

lemma installed_listener: "installed st \<Longrightarrow> installed (run_listener beh NotifyHandlers True st)"
proof -
  assume i: "installed st"
  then have "heap_ok st" by (simp add: installed_def)
  then show ?thesis using installed_fold_call [OF i] by (simp only: listener_fold)
qed

lemma installed_listeners:
  "installed st \<Longrightarrow> installed ((run_listener beh NotifyHandlers True ^^ n) st)"
  by (induction n) (simp_all add: installed_listener del: run_listener.simps)

lemma window_listeners:
  "installed st \<Longrightarrow> window ((run_listener beh NotifyHandlers True ^^ n) st) = window st"
proof (induction n)
  case 0
  then show ?case by simp
next
  case (Suc n)
  let ?s = "(run_listener beh NotifyHandlers True ^^ n) st"
  have "heap_ok ?s" using installed_listeners [OF Suc.prems] by (simp add: installed_def)
  then have "window (run_listener beh NotifyHandlers True ?s) = window ?s"
    by (simp only: listener_fold window_fold_call)
  then show ?case using Suc by (simp del: run_listener.simps)
qed

lemma trace_listeners:
  "installed st \<Longrightarrow> prefix (trace st) (trace ((run_listener beh NotifyHandlers True ^^ n) st))"
proof (induction n)
  case 0
  then show ?case by simp
next
  case (Suc n)
  let ?s = "(run_listener beh NotifyHandlers True ^^ n) st"
  have "heap_ok ?s" using installed_listeners [OF Suc.prems] by (simp add: installed_def)
  then have "trace (run_listener beh NotifyHandlers True ?s) = trace ?s @ calls (registry ?s)"
    by (simp only: listener_fold trace_fold_call)
  then have "prefix (trace ?s) (trace (run_listener beh NotifyHandlers True ?s))" by simp
  with Suc.IH [OF Suc.prems] have "prefix (trace st) (trace (run_listener beh NotifyHandlers True ?s))"
    by (rule prefix_order.trans)
  then show ?case by (simp del: run_listener.simps)
qed

lemma installed_resize: "installed st \<Longrightarrow> installed (resize beh w' st)"
proof -
  assume i: "installed st"
  then obtain w where w: "window st = Some w" by (auto simp: installed_def)
  show ?thesis
    by (simp only: resize_installed [OF i w] installed_listeners [OF installed_window [OF i]])
qed

lemma installed_step: "installed st \<Longrightarrow> installed (do_step beh s st)"
proof (cases s)
  case (Mount c)
  assume i: "installed st"
  have "installed (st\<lparr>screenSize := (screenSize st)(c := Some (getScreenSize st))\<rparr>)"
    using installed_perform [OF i, of "SetScreenSize c"] by simp
  then show ?thesis using Mount by (simp add: useScreenSize_mount_def installed_subscribe)
qed (simp_all add: useScreenSize_unmount_def installed_subscribe installed_unsubscribe installed_resize)

lemma installed_run: "installed (run beh steps (module_init (Some w)))"
proof -
  have "installed st \<Longrightarrow> installed (fold (do_step beh) steps st)" for st
    by (induction steps arbitrary: st) (auto simp: installed_step)
  then show ?thesis by (simp add: run_def installed_init)
qed

lemma dispatch_trace:
  "heap_ok st \<Longrightarrow> trace (forEach beh (handlers st) st) = trace st @ calls (registry st)"
  by (simp add: forEach_fold trace_fold_call)

lemma resize_single:
  assumes "installed st" and "window st = Some w" and "length (entered_queries st w w') = 1"
  shows "resize beh w' st = fold (call beh) (registry st) (st\<lparr>window := Some w'\<rparr>)"
proof -
  from assms(1) have ok: "heap_ok st" by (simp add: installed_def)
  have "resize beh w' st = run_listener beh NotifyHandlers True (st\<lparr>window := Some w'\<rparr>)"
    by (simp add: resize_installed [OF assms(1,2)] assms(3) del: run_listener.simps)
  then show ?thesis by (simp add: forEach_window [OF ok])
qed

lemma resize_trace:
  assumes "installed st" and "window st = Some w" and "length (entered_queries st w w') = 1"
  shows "trace (resize beh w' st) = trace st @ calls (registry st)"
  by (simp add: resize_single [OF assms] trace_fold_call)

lemma resize_trace_prefix:
  assumes "installed st" and "window st = Some w" and "entered_queries st w w' \<noteq> []"
  shows "prefix (trace st @ calls (registry st)) (trace (resize beh w' st))"
proof -
  let ?D = "run_listener beh NotifyHandlers True"
  let ?s0 = "st\<lparr>window := Some w'\<rparr>"
  from assms(1) have ok: "heap_ok st" by (simp add: installed_def)
  from assms(3) obtain n where n: "length (entered_queries st w w') = Suc n"
    by (cases "entered_queries st w w'") auto
  have first: "?D ?s0 = fold (call beh) (registry st) ?s0"
    by (simp add: forEach_window [OF ok])
  have i1: "installed (?D ?s0)"
    by (rule installed_listener [OF installed_window [OF assms(1)]])
  have "resize beh w' st = (?D ^^ n) (?D ?s0)"
    by (simp only: resize_installed [OF assms(1,2)] n funpow_Suc_right o_apply)
  moreover have "prefix (trace (?D ?s0)) (trace ((?D ^^ n) (?D ?s0)))"
    by (rule trace_listeners [OF i1])
  moreover have "trace (?D ?s0) = trace st @ calls (registry st)"
    by (simp only: first trace_fold_call) simp
  ultimately show ?thesis by simp
qed

lemma large_in_media: "installed st \<Longrightarrow>
  \<lparr>min_width = Some 1280, max_width = None, listeners = [NotifyHandlers]\<rparr> \<in> set (media_of st)"
  by (simp add: media_of_installed)

lemma resize_events:
  assumes "installed st" and "window st = Some w" and "length (entered_queries st w w') = 1"
  shows "new_events st (resize beh w' st) = calls (registry st)"
  by (rule new_events_append [OF resize_trace [OF assms]])

lemma window_resize: "installed st \<Longrightarrow> window (resize beh w' st) = Some w'"
proof -
  assume i: "installed st"
  then obtain w where w: "window st = Some w" by (auto simp: installed_def)
  show ?thesis
    by (simp only: resize_installed [OF i w] window_listeners [OF installed_window [OF i]]) simp
qed

lemma queries_500_1920:
  assumes "installed st"
  shows "map Some (entered_queries st 500 1920) = [largeMedia st]"
    and "map Some (changed_queries st 500 1920) = [xSmallMedia st, largeMedia st]"
  using assms
  by (simp_all add: entered_queries_def changed_queries_def media_of_installed matches_def precision_def)
     (simp_all add: installed_def media_init)

lemma registry_mount: "registry (useScreenSize_mount c st) = registry st @ [c]"
  by (simp add: useScreenSize_mount_def registry_subscribe registry_screenSize)

lemma installed_mount: "installed st \<Longrightarrow> installed (useScreenSize_mount c st)"
  using installed_step [of st beh "Mount c"] by simp

lemma window_mount: "window (useScreenSize_mount c st) = window st"
  by (simp add: useScreenSize_mount_def)

lemma heap_ok_init: "heap_ok (module_init win)"
  by (simp add: heap_ok_def module_init_def empty_module_def split: option.splits)

lemma heap_ok_subscribe: "heap_ok st \<Longrightarrow> heap_ok (subscribe h st)"
  using heap_ok_perform [of st "Subscribe h"] by simp

lemma heap_ok_unsubscribe: "heap_ok st \<Longrightarrow> heap_ok (unsubscribe h st)"
  using heap_ok_perform [of st "Unsubscribe h"] by simp

lemma listener_events:
  "heap_ok st \<Longrightarrow> new_events st (run_listener beh NotifyHandlers True st) = calls (registry st)"
  by (rule new_events_append) (simp add: dispatch_trace)

text \<open>
  Further than the host's precision from \<open>600\<close>, \<open>960\<close> and \<open>1280\<close> the four queries
  classify the width by these three thresholds.
\<close>

lemma getScreenSize_off_bounds:
  assumes "installed st" and "window st = Some w"
    and "precision < \<bar>w - 600\<bar>" and "precision < \<bar>w - 960\<bar>" and "precision < \<bar>w - 1280\<bar>"
  shows "getScreenSize st =
           \<lparr>isXSmall = Some (w < 600), isSmall = Some (600 \<le> w \<and> w < 960),
            isMedium = Some (960 \<le> w \<and> w < 1280), isLarge = Some (1280 \<le> w)\<rparr>"
    and "flags_true (getScreenSize st) = 1"
proof -
  show g: "getScreenSize st =
           \<lparr>isXSmall = Some (w < 600), isSmall = Some (600 \<le> w \<and> w < 960),
            isMedium = Some (960 \<le> w \<and> w < 1280), isLarge = Some (1280 \<le> w)\<rparr>"
    using assms(3,4,5) unfolding getScreenSize_installed [OF assms(1,2)] precision_def
    by (simp add: abs_if split: if_splits)
  show "flags_true (getScreenSize st) = 1"
    unfolding g by (auto simp: flags_true_def)
qed

lemma entered_500_1920:
  "installed st \<Longrightarrow>
   entered_queries st 500 1920 = [\<lparr>min_width = Some 1280, max_width = None, listeners = [NotifyHandlers]\<rparr>]"
  by (simp add: entered_queries_def media_of_installed matches_def precision_def)

text \<open>
  Coming down to \<open>600\<close> from \<open>1000\<close>, both \<open>xSmallMedia\<close> and \<open>smallMedia\<close> start to
  match, and the registry is entered twice.
\<close>

lemma resize_1000_to_600:
  "length (entered_queries (subscribe 7 (module_init (Some 1000))) 1000 600) = 2 \<and>
   trace (resize (\<lambda>h s. []) 600 (subscribe 7 (module_init (Some 1000)))) =
     [Call 7, Return 7, Call 7, Return 7]"
proof -
  let ?st = "subscribe 7 (module_init (Some 1000))"
  have i: "installed ?st" by (intro installed_subscribe installed_init)
  have w: "window ?st = Some 1000" by (simp add: window_init)
  have e: "length (entered_queries ?st 1000 600) = 2"
    by (simp add: entered_queries_def media_of_installed [OF i] matches_def precision_def)
  have ok: "heap_ok (?st\<lparr>window := Some 600\<rparr>)"
    using i by (simp add: installed_def heap_ok_def)
  have ok2: "heap_ok (fold (call (\<lambda>h s. [])) (registry ?st) (?st\<lparr>window := Some 600\<rparr>))"
    by (rule heap_ok_fold_call [OF ok])
  have r: "registry (call (\<lambda>h s. []) k s) = registry s" for k s
    by (simp add: call_def registry_trace)
  have "trace (resize (\<lambda>h s. []) 600 ?st) = [Call 7, Return 7, Call 7, Return 7]"
    unfolding resize_installed [OF i w] e numeral_2_eq_2 funpow.simps o_apply id_apply
    using ok ok2
    by (simp add: listener_fold registry_window registry_subscribe registry_init r
        trace_fold_call trace_call calls_def del: run_listener.simps)
  with e show ?thesis by simp
qed

section \<open>The claims of the specification\<close>

subsection \<open>C1: classification by the fixed thresholds\<close>

text \<open>
  C1: for every viewport width \<open>w\<close>, \<open>getScreenSize\<close> returns \<open>isXSmall\<close> iff \<open>w < 600\<close>,
  \<open>isSmall\<close> iff \<open>600 \<le> w < 960\<close>, \<open>isMedium\<close> iff \<open>960 \<le> w < 1280\<close>, \<open>isLarge\<close> iff
  \<open>w \<ge> 1280\<close>, exactly one flag being true. The code returns this at \<open>500\<close> and at
  \<open>1920\<close>. At \<open>600\<close>, \<open>960\<close> and \<open>1280\<close> it returns two true flags: the upper bounds
  \<open>599.99px\<close>, \<open>959.99px\<close> and \<open>1279.99px\<close> of lines 28 to 30 are within the host's
  precision of the next query's lower bound, so the query below still matches where the
  query above begins.
\<close>

theorem getScreenSize_at_bounds:
  "getScreenSize (module_init (Some 600)) =
     \<lparr>isXSmall = Some True, isSmall = Some True, isMedium = Some False, isLarge = Some False\<rparr> \<and>
   flags_true (getScreenSize (module_init (Some 600))) = 2 \<and>
   getScreenSize (module_init (Some 960)) =
     \<lparr>isXSmall = Some False, isSmall = Some True, isMedium = Some True, isLarge = Some False\<rparr> \<and>
   flags_true (getScreenSize (module_init (Some 960))) = 2 \<and>
   getScreenSize (module_init (Some 1280)) =
     \<lparr>isXSmall = Some False, isSmall = Some False, isMedium = Some True, isLarge = Some True\<rparr> \<and>
   flags_true (getScreenSize (module_init (Some 1280))) = 2 \<and>
   getScreenSize (module_init (Some 500)) =
     \<lparr>isXSmall = Some True, isSmall = Some False, isMedium = Some False, isLarge = Some False\<rparr> \<and>
   getScreenSize (module_init (Some 1920)) =
     \<lparr>isXSmall = Some False, isSmall = Some False, isMedium = Some False, isLarge = Some True\<rparr>"
  by (simp add: getScreenSize_installed [OF installed_init window_init] flags_true_def precision_def)

subsection \<open>C2: unsubscribe after subscribe\<close>

text \<open>
  C2: for every state and every handle \<open>h\<close>, after \<open>subscribe(h)\<close> and then
  \<open>unsubscribe(h)\<close> the registry holds no occurrence of \<open>h\<close>, those present before the
  \<open>subscribe\<close> included: what is left is the earlier registry without \<open>h\<close>.
\<close>

theorem unsubscribe_after_subscribe:
  "h \<notin> set (registry (unsubscribe h (subscribe h st))) \<and>
   count_list (registry (unsubscribe h (subscribe h st))) h = 0 \<and>
   registry (unsubscribe h (subscribe h st)) = filter (\<lambda>item. item \<noteq> h) (registry st)"
  by (simp add: registry_unsubscribe registry_subscribe)

text \<open>
  C2 at the registry \<open>[4, 5]\<close> and the handle \<open>4\<close>: \<open>[5]\<close> is left.
\<close>

theorem unsubscribe_after_subscribe_witness:
  "registry (subscribe 5 (subscribe 4 (module_init None))) = [4, 5] \<and>
   registry (unsubscribe 4 (subscribe 4 (subscribe 5 (subscribe 4 (module_init None))))) = [5]"
  using unsubscribe_after_subscribe [of 4 "subscribe 5 (subscribe 4 (module_init None))"]
  by (simp add: registry_subscribe registry_init)

subsection \<open>C3: unsubscribing an absent handle\<close>

text \<open>
  C3: when \<open>h\<close> does not occur in the registry, \<open>unsubscribe(h)\<close> leaves the registry as
  it was, the same handles in the same order. \<open>unsubscribe\<close> is a total function of the
  state with no error result, and it leaves the trace and the classification alone.
\<close>

theorem unsubscribe_absent:
  "h \<notin> set (registry st) \<Longrightarrow>
   registry (unsubscribe h st) = registry st \<and> trace (unsubscribe h st) = trace st \<and>
   getScreenSize (unsubscribe h st) = getScreenSize st"
proof -
  assume "h \<notin> set (registry st)"
  then have "filter (\<lambda>item. item \<noteq> h) (registry st) = registry st"
    by (simp add: filter_id_conv) blast
  then show ?thesis
    using getScreenSize_grows [OF grows_perform [of st "Unsubscribe h"]]
    by (simp add: registry_unsubscribe)
qed

theorem unsubscribe_absent_witness:
  "(2::nat) \<notin> set (registry (subscribe 1 (module_init None))) \<and>
   registry (unsubscribe 2 (subscribe 1 (module_init None))) = [1]"
  using unsubscribe_absent [of 2 "subscribe 1 (module_init None)"]
  by (simp add: registry_subscribe registry_init)

subsection \<open>C4: no window\<close>

text \<open>
  C4: in a module loaded without a window, \<open>getScreenSize\<close> returns the four flags
  undefined and no media query was constructed; and after any sequence of mounts,
  unmounts, subscriptions, unsubscriptions and resize events the flags are still
  undefined, there is still no media query, no callback was ever entered, and there is no
  media query list through which a change of width could be reported.
\<close>

theorem no_window_inert:
  "getScreenSize (module_init None) =
     \<lparr>isXSmall = None, isSmall = None, isMedium = None, isLarge = None\<rparr> \<and>
   media_of (module_init None) = [] \<and>
   getScreenSize (run beh steps (module_init None)) =
     \<lparr>isXSmall = None, isSmall = None, isMedium = None, isLarge = None\<rparr> \<and>
   media_of (run beh steps (module_init None)) = [] \<and>
   trace (run beh steps (module_init None)) = [] \<and>
   fold (report_change beh w w')
     [xSmallMedia (run beh steps (module_init None)), smallMedia (run beh steps (module_init None)),
      mediumMedia (run beh steps (module_init None)), largeMedia (run beh steps (module_init None))]
     (run beh steps (module_init None)) = run beh steps (module_init None)"
proof -
  have i: "inert (run beh steps (module_init None))" by (rule inert_run [OF inert_init])
  have m: "media_of (run beh steps (module_init None)) = []"
    using i by (simp add: inert_def media_of_def)
  have f: "fold (report_change beh w w')
     [xSmallMedia (run beh steps (module_init None)), smallMedia (run beh steps (module_init None)),
      mediumMedia (run beh steps (module_init None)), largeMedia (run beh steps (module_init None))]
     (run beh steps (module_init None)) = run beh steps (module_init None)"
    using i by (simp add: inert_def report_change_def)
  show ?thesis
    using inert_getScreenSize [OF i] inert_getScreenSize [OF inert_init] m f i
    by (simp add: inert_def media_of_def module_init_def empty_module_def)
qed

text \<open>
  C4 at a run that mounts a hook, subscribes a callback and asks for two resizes.
\<close>

theorem no_window_inert_witness:
  "trace (run (\<lambda>h s. onSizeChanged h) [Mount 1, DoSubscribe 2, Resize 500, Resize 1920] (module_init None)) = [] \<and>
   getScreenSize (run (\<lambda>h s. onSizeChanged h) [Mount 1, DoSubscribe 2, Resize 500, Resize 1920] (module_init None)) =
     \<lparr>isXSmall = None, isSmall = None, isMedium = None, isLarge = None\<rparr> \<and>
   registry (run (\<lambda>h s. onSizeChanged h) [Mount 1, DoSubscribe 2, Resize 500, Resize 1920] (module_init None)) = [1, 2]"
proof -
  have r: "registry (run (\<lambda>h s. onSizeChanged h) [Mount 1, DoSubscribe 2, Resize 500, Resize 1920] (module_init None)) = [1, 2]"
    by (simp add: run_def resize_def window_mount window_init registry_subscribe registry_mount registry_init)
  from no_window_inert [where beh = "\<lambda>h s. onSizeChanged h"
      and steps = "[Mount 1, DoSubscribe 2, Resize 500, Resize 1920]"] r
  show ?thesis by simp
qed

subsection \<open>C5: a query that starts to match notifies every handle\<close>

text \<open>
  C5: with the four media queries installed, a change event that reports a match, on
  whichever of the four queries, enters every handle of the registry, in registration
  order, each call returning before the next one is entered (the trace grows by
  \<open>Call h, Return h\<close> for each registered \<open>h\<close> in turn), whatever the callbacks do and
  with no argument passed. A change event that reports that the query stopped matching
  does nothing. A resize in which a query starts to match begins by entering the registry
  in the same way, and that is all it does when this query is the only one that starts
  to match.
\<close>

theorem change_notifies_all:
  assumes "installed st" and "window st = Some w" and "m \<in> set (media_of st)"
  shows "trace (fire_change beh m True st) = trace st @ calls (registry st) \<and>
         fire_change beh m False st = st \<and>
         (\<not> matches m w \<and> matches m w' \<longrightarrow>
            prefix (trace st @ calls (registry st)) (trace (resize beh w' st))) \<and>
         (entered_queries st w w' = [m] \<longrightarrow>
            trace (resize beh w' st) = trace st @ calls (registry st))"
proof -
  from assms(1) have ok: "heap_ok st" by (simp add: installed_def)
  have l: "listeners m = [NotifyHandlers]" by (rule listeners_installed [OF assms(1,3)])
  have a: "trace (fire_change beh m True st) = trace st @ calls (registry st)"
    by (simp add: fire_change_single [OF l] dispatch_trace [OF ok])
  have b: "fire_change beh m False st = st"
    by (simp add: fire_change_single [OF l])
  have c: "prefix (trace st @ calls (registry st)) (trace (resize beh w' st))"
    if "\<not> matches m w \<and> matches m w'"
  proof -
    from that assms(3) have "m \<in> set (entered_queries st w w')" by (simp add: entered_queries_def)
    then have "entered_queries st w w' \<noteq> []" by auto
    then show ?thesis by (rule resize_trace_prefix [OF assms(1,2)])
  qed
  have d: "trace (resize beh w' st) = trace st @ calls (registry st)"
    if "entered_queries st w w' = [m]"
  proof -
    from that have "length (entered_queries st w w') = 1" by simp
    then show ?thesis by (rule resize_trace [OF assms(1,2)])
  qed
  from a b c d show ?thesis by blast
qed

text \<open>
  C5 at the registry \<open>[1, 2]\<close>, the width going from \<open>500\<close> to \<open>1920\<close>.
\<close>

theorem change_notifies_all_witness:
  "installed (subscribe 2 (subscribe 1 (module_init (Some 500)))) \<and>
   trace (resize (\<lambda>h s. onSizeChanged h) 1920 (subscribe 2 (subscribe 1 (module_init (Some 500))))) =
     [Call 1, Return 1, Call 2, Return 2]"
proof -
  let ?st = "subscribe 2 (subscribe 1 (module_init (Some 500)))"
  have i: "installed ?st" by (intro installed_subscribe installed_init)
  have w: "window ?st = Some 500" by (simp add: window_init)
  note m = large_in_media [OF i]
  note e = entered_500_1920 [OF i]
  from change_notifies_all [OF i w m, where w' = 1920 and beh = "\<lambda>h s. onSizeChanged h"] e
  have "trace (resize (\<lambda>h s. onSizeChanged h) 1920 ?st) = trace ?st @ calls (registry ?st)"
    by blast
  then show ?thesis using i by (simp add: registry_subscribe registry_init calls_def)
qed

subsection \<open>C6: from 500px to 1920px\<close>

text \<open>
  C6, as the specification states it: every subscribed handle is invoked exactly once per
  transitioning media query. Going from \<open>500\<close> to \<open>1920\<close>, two queries change their
  match state and one of them starts to match. A handle subscribed twice is invoked twice
  for the one query that starts to match, and a handle subscribed once is invoked once
  although two queries changed.
\<close>

theorem resize_invocations_counterexample:
  "invocations 7 (new_events (subscribe 7 (subscribe 7 (module_init (Some 500))))
      (resize (\<lambda>h s. onSizeChanged h) 1920 (subscribe 7 (subscribe 7 (module_init (Some 500)))))) = 2 \<and>
   length (entered_queries (subscribe 7 (subscribe 7 (module_init (Some 500)))) 500 1920) = 1 \<and>
   invocations 7 (new_events (subscribe 7 (module_init (Some 500)))
      (resize (\<lambda>h s. onSizeChanged h) 1920 (subscribe 7 (module_init (Some 500))))) = 1 \<and>
   length (changed_queries (subscribe 7 (module_init (Some 500))) 500 1920) = 2"
proof -
  let ?s1 = "subscribe 7 (module_init (Some 500))"
  let ?s2 = "subscribe 7 ?s1"
  have i1: "installed ?s1" and i2: "installed ?s2" by (intro installed_subscribe installed_init)+
  have w1: "window ?s1 = Some 500" and w2: "window ?s2 = Some 500" by (simp_all add: window_init)
  have e1: "length (entered_queries ?s1 500 1920) = 1" and e2: "length (entered_queries ?s2 500 1920) = 1"
    and c1: "length (changed_queries ?s1 500 1920) = 2"
    using queries_500_1920 [OF i1] queries_500_1920 [OF i2] by (metis length_map length_Cons list.size(3) One_nat_def Suc_1)+
  show ?thesis
    using e2 c1
    by (simp add: resize_events [OF i1 w1 e1] resize_events [OF i2 w2 e2] invocations_def count_calls
        registry_subscribe registry_init)
qed

text \<open>
  C6, amended: when the width goes from \<open>500\<close> to \<open>1920\<close>, the queries that change
  are \<open>xSmallMedia\<close>, which stops matching and invokes nothing, and \<open>largeMedia\<close>, which
  starts to match and causes one dispatch; in it every handle is invoked once for each of
  its occurrences in the registry, in registration order (so a handle subscribed once is
  invoked exactly once); and afterwards a hook instance \<open>c\<close> that is subscribed reads
  \<open>isLarge\<close> true and the other three flags false.
\<close>

theorem resize_500_to_1920:
  assumes "installed st" and "window st = Some 500" and "c \<in> set (registry st)"
    and "\<forall>s. beh c s = onSizeChanged c"
  shows "new_events st (resize beh 1920 st) = calls (registry st) \<and>
         invocations h (new_events st (resize beh 1920 st)) = count_list (registry st) h \<and>
         map Some (entered_queries st 500 1920) = [largeMedia st] \<and>
         map Some (changed_queries st 500 1920) = [xSmallMedia st, largeMedia st] \<and>
         useScreenSize c (resize beh 1920 st) =
           Some \<lparr>isXSmall = Some False, isSmall = Some False, isMedium = Some False, isLarge = Some True\<rparr>"
proof -
  from assms(1) have ok: "heap_ok st" by (simp add: installed_def)
  note q = queries_500_1920 [OF assms(1)]
  have ne: "length (entered_queries st 500 1920) = 1" by (simp add: entered_500_1920 [OF assms(1)])
  have ev: "new_events st (resize beh 1920 st) = calls (registry st)"
    by (rule resize_events [OF assms(1,2) ne])
  have inv: "invocations h (new_events st (resize beh 1920 st)) = count_list (registry st) h"
    by (simp add: ev invocations_def count_calls)
  have r: "resize beh 1920 st = fold (call beh) (registry st) (st\<lparr>window := Some 1920\<rparr>)"
    by (rule resize_single [OF assms(1,2) ne])
  have "fresh c (resize beh 1920 st)"
    unfolding r using assms(3,4) by (intro fresh_fold_call) auto
  moreover have "getScreenSize (resize beh 1920 st) =
      \<lparr>isXSmall = Some False, isSmall = Some False, isMedium = Some False, isLarge = Some True\<rparr>"
    using getScreenSize_installed [OF installed_resize [OF assms(1)] window_resize [OF assms(1)]]
    by (simp add: precision_def)
  ultimately have u: "useScreenSize c (resize beh 1920 st) =
      Some \<lparr>isXSmall = Some False, isSmall = Some False, isMedium = Some False, isLarge = Some True\<rparr>"
    by (simp add: fresh_def useScreenSize_def)
  from ev inv q u show ?thesis by blast
qed

text \<open>
  C6, amended, at one mounted hook instance: it reads \<open>isXSmall\<close> before the resize,
  is invoked once, and reads \<open>isLarge\<close> after it.
\<close>

theorem resize_500_to_1920_witness:
  "installed (useScreenSize_mount 7 (module_init (Some 500))) \<and>
   window (useScreenSize_mount 7 (module_init (Some 500))) = Some 500 \<and>
   useScreenSize 7 (useScreenSize_mount 7 (module_init (Some 500))) =
     Some \<lparr>isXSmall = Some True, isSmall = Some False, isMedium = Some False, isLarge = Some False\<rparr> \<and>
   new_events (useScreenSize_mount 7 (module_init (Some 500)))
     (resize (\<lambda>h s. onSizeChanged h) 1920 (useScreenSize_mount 7 (module_init (Some 500)))) =
     [Call 7, Return 7] \<and>
   useScreenSize 7 (resize (\<lambda>h s. onSizeChanged h) 1920 (useScreenSize_mount 7 (module_init (Some 500)))) =
     Some \<lparr>isXSmall = Some False, isSmall = Some False, isMedium = Some False, isLarge = Some True\<rparr>"
proof -
  let ?st = "useScreenSize_mount 7 (module_init (Some 500))"
  have i: "installed ?st" by (intro installed_mount installed_init)
  have w: "window ?st = Some 500" by (simp add: window_mount window_init)
  have c: "7 \<in> set (registry ?st)" by (simp add: registry_mount)
  have u: "useScreenSize 7 ?st =
     Some \<lparr>isXSmall = Some True, isSmall = Some False, isMedium = Some False, isLarge = Some False\<rparr>"
    using getScreenSize_installed [OF installed_init window_init, of 500]
    by (simp add: useScreenSize_def useScreenSize_mount_def subscribe_def precision_def)
  from resize_500_to_1920 [OF i w c, where beh = "\<lambda>h s. onSizeChanged h"] i w u
  show ?thesis by (simp add: registry_mount registry_init calls_def)
qed

subsection \<open>C7: at most one occurrence of each handle\<close>

text \<open>
  C7, as the specification states it: every operation, \<open>subscribe\<close> included, keeps
  the registry free of duplicates. \<open>subscribe\<close> pushes without looking: from the registry
  \<open>[0]\<close>, which has no duplicate, \<open>subscribe(0)\<close> makes \<open>[0, 0]\<close>.
\<close>

theorem subscribe_twice_counterexample:
  "distinct (registry (subscribe 0 (module_init None))) \<and>
   \<not> distinct (registry (subscribe 0 (subscribe 0 (module_init None))))"
  by (simp add: registry_subscribe registry_init)

text \<open>
  C7, amended: when no handle occurs twice in the registry, none does after
  \<open>unsubscribe(h)\<close>; none does after \<open>subscribe(h)\<close> exactly when \<open>h\<close> was not
  registered; and none does after a notification dispatch whose callbacks do not call
  \<open>subscribe\<close>.
\<close>

theorem registry_distinct_preserved:
  assumes "distinct (registry st)"
  shows "distinct (registry (unsubscribe h st)) \<and>
         distinct (registry (subscribe h st)) = (h \<notin> set (registry st)) \<and>
         (heap_ok st \<and> (\<forall>k s. \<forall>a\<in>set (beh k s). \<not> subscribes a) \<longrightarrow>
            distinct (registry (run_listener beh NotifyHandlers b st)))"
proof -
  have a: "distinct (registry (unsubscribe h st))"
    using assms by (simp add: registry_unsubscribe)
  have b: "distinct (registry (subscribe h st)) = (h \<notin> set (registry st))"
    using assms by (simp add: registry_subscribe)
  have c: "distinct (registry (run_listener beh NotifyHandlers b st))"
    if "heap_ok st \<and> (\<forall>k s. \<forall>a\<in>set (beh k s). \<not> subscribes a)"
  proof -
    from that have "distinct (registry (fold (call beh) (registry st) st))"
      using assms by (intro distinct_fold_call) auto
    moreover from that have "heap_ok st" by simp
    ultimately show ?thesis using assms by (simp add: forEach_fold)
  qed
  from a b c show ?thesis by blast
qed

text \<open>
  C7, amended, at the registry \<open>[1]\<close> with callbacks that unsubscribe themselves.
\<close>

theorem registry_distinct_preserved_witness:
  "distinct (registry (subscribe 1 (module_init None))) \<and>
   heap_ok (subscribe 1 (module_init None)) \<and>
   distinct (registry (unsubscribe 1 (subscribe 1 (module_init None)))) \<and>
   distinct (registry (subscribe 2 (subscribe 1 (module_init None)))) \<and>
   \<not> distinct (registry (subscribe 1 (subscribe 1 (module_init None)))) \<and>
   distinct (registry (run_listener (\<lambda>h s. [Unsubscribe h]) NotifyHandlers True (subscribe 1 (module_init None))))"
proof -
  let ?st = "subscribe 1 (module_init None)"
  have d: "distinct (registry ?st)" by (simp add: registry_subscribe registry_init)
  have ok: "heap_ok ?st" by (intro heap_ok_subscribe heap_ok_init)
  have n: "\<forall>k s. \<forall>a\<in>set ((\<lambda>h s. [Unsubscribe h]) k s). \<not> subscribes a" by (simp add: subscribes_def)
  from registry_distinct_preserved [OF d, where h = 1 and beh = "\<lambda>h s. [Unsubscribe h]" and b = True]
       registry_distinct_preserved [OF d, where h = 2 and beh = "\<lambda>h s. [Unsubscribe h]" and b = True] d ok n
  show ?thesis by (simp add: registry_subscribe registry_init)
qed

subsection \<open>C8: no deduplication\<close>

text \<open>
  C8: \<open>subscribe(h)\<close> twice appends \<open>h\<close> twice, so the registry holds two more
  occurrences of \<open>h\<close> than before (two when it held none), and one notification
  after that enters \<open>h\<close> twice more than it would have before (twice when \<open>h\<close> was not
  registered).
\<close>

theorem subscribe_twice_invoked_twice:
  assumes "heap_ok st"
  shows "registry (subscribe h (subscribe h st)) = registry st @ [h, h] \<and>
         count_list (registry (subscribe h (subscribe h st))) h = count_list (registry st) h + 2 \<and>
         new_events (subscribe h (subscribe h st))
           (run_listener beh NotifyHandlers True (subscribe h (subscribe h st))) =
           calls (registry st) @ [Call h, Return h, Call h, Return h] \<and>
         invocations h (new_events (subscribe h (subscribe h st))
           (run_listener beh NotifyHandlers True (subscribe h (subscribe h st)))) =
           count_list (registry st) h + 2"
proof -
  let ?s2 = "subscribe h (subscribe h st)"
  have r: "registry ?s2 = registry st @ [h, h]" by (simp add: registry_subscribe)
  have ok: "heap_ok ?s2" by (intro heap_ok_subscribe assms)
  have ev: "new_events ?s2 (run_listener beh NotifyHandlers True ?s2) = calls (registry ?s2)"
    by (rule listener_events [OF ok])
  have c: "calls (registry st @ [h, h]) = calls (registry st) @ [Call h, Return h, Call h, Return h]"
    by (simp add: calls_def)
  show ?thesis
    using ev c by (simp add: r invocations_def count_calls [symmetric])
qed

text \<open>
  C8 from the empty registry: \<open>[3, 3]\<close>, and two calls of \<open>3\<close> in one notification.
\<close>

theorem subscribe_twice_invoked_twice_witness:
  "heap_ok (module_init (Some 500)) \<and>
   registry (subscribe 3 (subscribe 3 (module_init (Some 500)))) = [3, 3] \<and>
   new_events (subscribe 3 (subscribe 3 (module_init (Some 500))))
     (run_listener (\<lambda>h s. onSizeChanged h) NotifyHandlers True (subscribe 3 (subscribe 3 (module_init (Some 500))))) =
     [Call 3, Return 3, Call 3, Return 3] \<and>
   invocations 3 (new_events (subscribe 3 (subscribe 3 (module_init (Some 500))))
     (run_listener (\<lambda>h s. onSizeChanged h) NotifyHandlers True (subscribe 3 (subscribe 3 (module_init (Some 500)))))) = 2"
  using subscribe_twice_invoked_twice [OF heap_ok_init [of "Some 500"], where h = 3 and beh = "\<lambda>h s. onSizeChanged h"] heap_ok_init [of "Some 500"]
  by (simp add: registry_init calls_def invocations_def)

subsection \<open>C9: unsubscribe during a dispatch\<close>

text \<open>
  C9: \<open>unsubscribe\<close> leaves the array that \<open>handlers\<close> pointed to as it was and
  points \<open>handlers\<close> to another array. So whatever the callbacks of a dispatch do, calls
  of \<open>unsubscribe\<close> on themselves or on others included, the dispatch enters exactly
  the handles registered when it started, each as often as it was registered; and when
  a registered callback unsubscribes \<open>u\<close> and nobody subscribes it again, \<open>u\<close> is
  out of the registry after the dispatch although the dispatch entered it.
\<close>

theorem unsubscribe_during_dispatch:
  assumes "heap_ok st"
  shows "heap (unsubscribe u st) (handlers st) = heap st (handlers st) \<and>
         handlers (unsubscribe u st) \<noteq> handlers st \<and>
         new_events st (run_listener beh NotifyHandlers True st) = calls (registry st) \<and>
         invocations h (new_events st (run_listener beh NotifyHandlers True st)) = count_list (registry st) h \<and>
         (g \<in> set (registry st) \<and> (\<forall>s. beh g s = [Unsubscribe u]) \<and> (\<forall>k s. Subscribe u \<notin> set (beh k s)) \<longrightarrow>
            u \<notin> set (registry (run_listener beh NotifyHandlers True st)))"
proof -
  have a: "heap (unsubscribe u st) (handlers st) = heap st (handlers st)"
    and b: "handlers (unsubscribe u st) \<noteq> handlers st"
    using assms by (simp_all add: unsubscribe_def heap_ok_def)
  have ev: "new_events st (run_listener beh NotifyHandlers True st) = calls (registry st)"
    by (rule listener_events [OF assms])
  have inv: "invocations h (new_events st (run_listener beh NotifyHandlers True st)) = count_list (registry st) h"
    by (simp only: ev invocations_def count_calls)
  have c: "u \<notin> set (registry (run_listener beh NotifyHandlers True st))"
    if "g \<in> set (registry st) \<and> (\<forall>s. beh g s = [Unsubscribe u]) \<and> (\<forall>k s. Subscribe u \<notin> set (beh k s))"
  proof -
    from that have "u \<notin> set (registry (fold (call beh) (registry st) st))"
      by (intro absent_fold_call [where g = g]) auto
    then show ?thesis using assms by (simp add: forEach_fold)
  qed
  from a b ev inv c show ?thesis by blast
qed

text \<open>
  C9 at the registry \<open>[1, 2]\<close>, every callback unsubscribing \<open>2\<close>: both are entered
  and \<open>2\<close> is gone afterwards.
\<close>

theorem unsubscribe_during_dispatch_witness:
  "heap_ok (subscribe 2 (subscribe 1 (module_init (Some 500)))) \<and>
   registry (subscribe 2 (subscribe 1 (module_init (Some 500)))) = [1, 2] \<and>
   new_events (subscribe 2 (subscribe 1 (module_init (Some 500))))
     (run_listener (\<lambda>h s. [Unsubscribe 2]) NotifyHandlers True (subscribe 2 (subscribe 1 (module_init (Some 500))))) =
     [Call 1, Return 1, Call 2, Return 2] \<and>
   2 \<notin> set (registry (run_listener (\<lambda>h s. [Unsubscribe 2]) NotifyHandlers True
     (subscribe 2 (subscribe 1 (module_init (Some 500))))))"
proof -
  let ?st = "subscribe 2 (subscribe 1 (module_init (Some 500)))"
  have ok: "heap_ok ?st" by (intro heap_ok_subscribe heap_ok_init)
  have r: "registry ?st = [1, 2]" by (simp add: registry_subscribe registry_init)
  from unsubscribe_during_dispatch [OF ok, where beh = "\<lambda>h s. [Unsubscribe 2]" and u = 2 and g = 1] ok r
  show ?thesis by (simp add: calls_def)
qed

subsection \<open>C10: subscribe during a dispatch\<close>



end
